theory Spec2Isabelle
  imports Complex_Main "HOL-Library.Multiset"
begin

section \<open>ReactEventListener: top-level event delegation\<close>

text \<open>
  A shallow embedding of \<^verbatim>\<open>src/renderers/dom/client/ReactEventListener.js\<close>.
  JavaScript objects are records, arrays are lists whose entries may be
  \<^verbatim>\<open>undefined\<close>, exceptions are values, and the two tree-walking loops, which
  run forever on a cyclic tree, are partial functions whose value \<open>None\<close> means
  that the loop does not return.
\<close>

subsection \<open>JavaScript values and arrays\<close>

text \<open>
  A JavaScript number, as far as truthiness can tell numbers apart: \<^verbatim>\<open>NaN\<close>, the two
  infinities (\<open>True\<close> is the negative one) and a finite number given by its sign
  (\<open>True\<close> is negative, so that \<^verbatim>\<open>-0\<close> is \<open>JFinite True 0\<close>) and magnitude.
\<close>

datatype js_number = JNaN | JInfinity bool | JFinite bool rat

datatype js_value =
    JUndefined
  | JNull
  | JBool bool
  | JNumber js_number
  | JString string
  | JObject nat

text \<open>\<^verbatim>\<open>ToBoolean\<close>, the coercion behind \<^verbatim>\<open>!x\<close>, \<^verbatim>\<open>!!x\<close> and \<^verbatim>\<open>if (x)\<close>.\<close>

fun toBoolean :: "js_value \<Rightarrow> bool" where
  "toBoolean JUndefined = False"
| "toBoolean JNull = False"
| "toBoolean (JBool b) = b"
| "toBoolean (JNumber JNaN) = False"
| "toBoolean (JNumber (JInfinity s)) = True"
| "toBoolean (JNumber (JFinite s m)) = (m \<noteq> 0)"
| "toBoolean (JString s) = (s \<noteq> [])"
| "toBoolean (JObject r) = True"

text \<open>
  An array is the list of its entries; \<open>None\<close> is an entry that reads as
  \<^verbatim>\<open>undefined\<close>. Reading outside \<open>0 .. length - 1\<close> gives \<^verbatim>\<open>undefined\<close>, also
  at a negative index. Writing at an index beyond the end extends the array, the entries
  in between being holes.
\<close>

type_synonym 'a js_array = "'a option list"

definition js_get :: "'a js_array \<Rightarrow> int \<Rightarrow> 'a option" where
  "js_get xs i = (if 0 \<le> i \<and> i < int (length xs) then xs ! nat i else None)"

definition js_push :: "'a js_array \<Rightarrow> 'a option \<Rightarrow> 'a js_array" where
  "js_push xs v = xs @ [v]"

definition js_set :: "'a js_array \<Rightarrow> nat \<Rightarrow> 'a option \<Rightarrow> 'a js_array" where
  "js_set xs i v =
     (if i < length xs then xs[i := v]
      else xs @ replicate (i - length xs) None @ [v])"

subsection \<open>The component tree and the document\<close>

type_synonym inst = nat
type_synonym node = nat

text \<open>
  The collaborators the listener consults, as the tree stands at one moment:
  \<^verbatim>\<open>inst._hostParent\<close> (\<open>None\<close> is \<^verbatim>\<open>null\<close>),
  \<^verbatim>\<open>ReactDOMComponentTree.getNodeFromInstance\<close>, \<^verbatim>\<open>node.parentNode\<close> and
  \<^verbatim>\<open>ReactDOMComponentTree.getClosestInstanceFromNode\<close>, which is also given the
  \<^verbatim>\<open>null\<close> parent of a detached node.
\<close>

record tree_env =
  hostParent :: "inst \<Rightarrow> inst option"
  getNodeFromInstance :: "inst \<Rightarrow> node"
  parentNode :: "node \<Rightarrow> node option"
  getClosestInstanceFromNode :: "node option \<Rightarrow> inst option"

subsection \<open>The ancestor collector\<close>

text \<open>
  The inner loop of \<^verbatim>\<open>_collectAncestors\<close>:
  \<^verbatim>\<open>while (ancestor._hostParent) { ancestor = ancestor._hostParent; }\<close>
\<close>

partial_function (option) hostRoot :: "tree_env \<Rightarrow> inst \<Rightarrow> inst option" where
  "hostRoot env ancestor =
     (case hostParent env ancestor of
        None \<Rightarrow> Some ancestor
      | Some p \<Rightarrow> hostRoot env p)"

text \<open>
  The \<^verbatim>\<open>do ... while (ancestor)\<close> loop of \<^verbatim>\<open>_collectAncestors\<close>, from the
  \<^verbatim>\<open>push\<close> of the current instance to the test of the next one.
\<close>

partial_function (option) collectLoop ::
  "tree_env \<Rightarrow> inst js_array \<Rightarrow> node js_array \<Rightarrow> inst \<Rightarrow> (inst js_array \<times> node js_array) option"
where
  "collectLoop env ancestors roots ancestor =
     (case hostRoot env ancestor of
        None \<Rightarrow> None
      | Some outermost \<Rightarrow>
          (let ancestors' = js_push ancestors (Some ancestor);
               rootNode = getNodeFromInstance env outermost;
               roots' = js_push roots (Some rootNode);
               container = parentNode env rootNode
           in case getClosestInstanceFromNode env container of
                None \<Rightarrow> Some (ancestors', roots')
              | Some next \<Rightarrow> collectLoop env ancestors' roots' next))"

definition collectAncestors ::
  "tree_env \<Rightarrow> inst js_array \<Rightarrow> node js_array \<Rightarrow> inst option \<Rightarrow> (inst js_array \<times> node js_array) option"
where
  "collectAncestors env ancestors roots targetInst =
     (case targetInst of
        None \<Rightarrow> Some (ancestors, roots)
      | Some t \<Rightarrow> collectLoop env ancestors roots t)"

declare hostRoot.simps [code]
declare collectLoop.simps [code]

subsection \<open>Events, exceptions and the pooled objects\<close>

text \<open>
  A native event, as far as the listener reads it: the node that
  \<^verbatim>\<open>getEventTarget(nativeEvent)\<close> returns and the \<^verbatim>\<open>relatedTarget\<close> property,
  \<open>None\<close> when it is absent or \<^verbatim>\<open>null\<close> (a node is an object, hence truthy).
\<close>

record native_event =
  target :: node
  relatedTarget :: "node option"

definition getEventTarget :: "native_event \<Rightarrow> node" where
  "getEventTarget ev = target ev"

text \<open>What a call can throw: the engine's \<^verbatim>\<open>TypeError\<close>, or the value a handler throws.\<close>

datatype js_error = TypeError | Thrown js_value

text \<open>\<^verbatim>\<open>DOMEventMetadata\<close>: the field is \<^verbatim>\<open>null\<close> (\<open>None\<close>) after the destructor.\<close>

record DOMEventMetadata =
  isRelatedTarget :: "bool option"

definition DOMEventMetadata_constructor :: "DOMEventMetadata \<Rightarrow> bool \<Rightarrow> DOMEventMetadata" where
  "DOMEventMetadata_constructor this b = this\<lparr>isRelatedTarget := Some b\<rparr>"

definition DOMEventMetadata_destructor :: "DOMEventMetadata \<Rightarrow> DOMEventMetadata" where
  "DOMEventMetadata_destructor this = this\<lparr>isRelatedTarget := None\<rparr>"

text \<open>
  Modelled from the spec: \<^verbatim>\<open>PooledClass\<close>, which is not among the sources. A pool is
  the free list of its class; \<^verbatim>\<open>getPooled\<close> returns a reused or a freshly constructed
  object initialised with the arguments, and \<^verbatim>\<open>release\<close> runs the object's
  destructor and returns it to the free list. Releasing \<^verbatim>\<open>undefined\<close> has no
  destructor to call and throws.
\<close>

definition DOMEventMetadata_getPooled ::
  "bool \<Rightarrow> DOMEventMetadata list \<Rightarrow> DOMEventMetadata \<times> DOMEventMetadata list"
where
  "DOMEventMetadata_getPooled b pool =
     (if pool = [] then (DOMEventMetadata_constructor \<lparr>isRelatedTarget = None\<rparr> b, [])
      else (DOMEventMetadata_constructor (last pool) b, butlast pool))"

definition DOMEventMetadata_release ::
  "DOMEventMetadata option \<Rightarrow> DOMEventMetadata list \<Rightarrow> DOMEventMetadata list \<times> js_error option"
where
  "DOMEventMetadata_release instance pool =
     (case instance of
        None \<Rightarrow> (pool, Some TypeError)
      | Some m \<Rightarrow> (pool @ [DOMEventMetadata_destructor m], None))"

text \<open>\<^verbatim>\<open>TopLevelCallbackBookKeeping\<close>, the scratch record of one dispatch.\<close>

record bookKeeping =
  topLevelType :: "string option"
  nativeEvent :: "native_event option"
  ancestors :: "inst js_array"
  ancestorMetadata :: "DOMEventMetadata js_array"
  relatedAncestors :: "inst js_array"
  roots :: "node js_array"
  relatedRoots :: "node js_array"

definition TopLevelCallbackBookKeeping :: "string \<Rightarrow> native_event \<Rightarrow> bookKeeping" where
  "TopLevelCallbackBookKeeping tlt ev =
     \<lparr>topLevelType = Some tlt, nativeEvent = Some ev, ancestors = [], ancestorMetadata = [],
      relatedAncestors = [], roots = [], relatedRoots = []\<rparr>"

text \<open>
  The loop of the destructor,
  \<^verbatim>\<open>for (i = 0; i < this.ancestorMetadata.length; i++) DOMEventMetadata.release(this.ancestorMetadata[i])\<close>;
  it stops where a release throws. The list keeps its entries until the destructor
  truncates it.
\<close>

function releaseLoop ::
  "bookKeeping \<Rightarrow> DOMEventMetadata list \<Rightarrow> nat \<Rightarrow> DOMEventMetadata list \<times> js_error option"
where
  "releaseLoop this pool i =
     (if i < length (ancestorMetadata this) then
        (case DOMEventMetadata_release (js_get (ancestorMetadata this) (int i)) pool of
           (pool', Some e) \<Rightarrow> (pool', Some e)
         | (pool', None) \<Rightarrow> releaseLoop this pool' (i + 1))
      else (pool, None))"
  by pat_completeness auto
termination
  by (relation "measure (\<lambda>(this, pool, i). length (ancestorMetadata this) - i)") auto

text \<open>
  The destructor, in the order of its statements; the metadata pool is the state it
  changes besides the record. When a release throws, the statements after the loop do
  not run.
\<close>

definition TopLevelCallbackBookKeeping_destructor ::
  "bookKeeping \<Rightarrow> DOMEventMetadata list \<Rightarrow> bookKeeping \<times> DOMEventMetadata list \<times> js_error option"
where
  "TopLevelCallbackBookKeeping_destructor this pool =
     (let this1 = this\<lparr>topLevelType := None, nativeEvent := None, ancestors := []\<rparr>
      in case releaseLoop this1 pool 0 of
           (pool', Some e) \<Rightarrow> (this1, pool', Some e)
         | (pool', None) \<Rightarrow>
             (this1\<lparr>roots := [], relatedRoots := [], ancestorMetadata := [],
                    relatedAncestors := []\<rparr>, pool', None))"

text \<open>
  \<^verbatim>\<open>TopLevelCallbackBookKeeping.getPooled\<close>, under the same model of the pool: the
  constructor assigns every field, so a reused record and a fresh one are the same value.
\<close>

definition TopLevelCallbackBookKeeping_getPooled ::
  "string \<Rightarrow> native_event \<Rightarrow> bookKeeping list \<Rightarrow> bookKeeping \<times> bookKeeping list"
where
  "TopLevelCallbackBookKeeping_getPooled tlt ev pool =
     (TopLevelCallbackBookKeeping tlt ev, if pool = [] then [] else butlast pool)"

subsection \<open>The listener's state\<close>

text \<open>
  What a handler can see and change: the component tree and a state of its own; it does
  not call back into the listener. The arguments of one call of \<^verbatim>\<open>ReactEventListener._handleTopLevel\<close> are
  \<open>(topLevelType, targetInst, nativeEvent, getEventTarget(nativeEvent), metadata)\<close>;
  a handler returns the new world and the value it throws, if it throws.
\<close>

record 'u world =
  tree :: tree_env
  user :: 'u

datatype handler_call =
  HandlerCall "string option" "inst option" "native_event option" node "DOMEventMetadata option"

type_synonym 'u handler = "handler_call \<Rightarrow> 'u world \<Rightarrow> 'u world \<times> js_value option"

text \<open>
  The calls the listener makes to the outside, in the order it makes them: entering and
  leaving the batched-update scope, and each invocation of the handler.
\<close>

datatype event = BatchStart | BatchEnd | Invoke handler_call

text \<open>
  \<^verbatim>\<open>ReactEventListener._enabled\<close> and \<^verbatim>\<open>_handleTopLevel\<close> (\<open>None\<close> is the
  initial \<^verbatim>\<open>null\<close>), the instance pools of the two pooled classes, the world and
  the log of outside calls.
\<close>

record 'u listener =
  enabled :: js_value
  handleTopLevel :: "'u handler option"
  metadataPool :: "DOMEventMetadata list"
  bookKeepingPool :: "bookKeeping list"
  world :: "'u world"
  log :: "event list"

definition initialListener :: "'u world \<Rightarrow> 'u listener" where
  "initialListener w =
     \<lparr>enabled = JBool True, handleTopLevel = None, metadataPool = [], bookKeepingPool = [],
      world = w, log = []\<rparr>"

definition setHandleTopLevel :: "'u handler \<Rightarrow> 'u listener \<Rightarrow> 'u listener" where
  "setHandleTopLevel h st = st\<lparr>handleTopLevel := Some h\<rparr>"

definition setEnabled :: "js_value \<Rightarrow> 'u listener \<Rightarrow> 'u listener" where
  "setEnabled x st = st\<lparr>enabled := JBool (\<not> \<not> toBoolean x)\<rparr>"

definition isEnabled :: "'u listener \<Rightarrow> js_value" where
  "isEnabled st = enabled st"

subsection \<open>\<^verbatim>\<open>handleTopLevelImpl\<close>\<close>

text \<open>
  \<^verbatim>\<open>for (i = 0; i < bookKeeping.ancestors.length; i++)
    bookKeeping.ancestorMetadata[i] = DOMEventMetadata.getPooled(false);\<close>
\<close>

function metadataLoop ::
  "bookKeeping \<Rightarrow> DOMEventMetadata list \<Rightarrow> nat \<Rightarrow> bookKeeping \<times> DOMEventMetadata list"
where
  "metadataLoop bk pool i =
     (if i < length (ancestors bk) then
        (case DOMEventMetadata_getPooled False pool of
           (m, pool') \<Rightarrow>
             metadataLoop (bk\<lparr>ancestorMetadata := js_set (ancestorMetadata bk) i (Some m)\<rparr>)
               pool' (i + 1))
      else (bk, pool))"
  by pat_completeness auto
termination
  by (relation "measure (\<lambda>(bk, pool, i). length (ancestors bk) - i)") auto

text \<open>
  The body of the reconciliation loop at index \<open>i\<close>: both root lists are read at
  \<open>length - i\<close>, and where the primary root is missing or differs from the related one,
  a metadata object flagged \<open>true\<close> is stored at \<open>ancestors.length\<close> and
  \<open>relatedAncestors[relatedAncestors.length - i]\<close> is pushed.
\<close>

definition reconcileStep ::
  "bookKeeping \<Rightarrow> DOMEventMetadata list \<Rightarrow> int \<Rightarrow> bookKeeping \<times> DOMEventMetadata list"
where
  "reconcileStep bk pool i =
     (let root = js_get (roots bk) (int (length (roots bk)) - i);
          relatedRoot = js_get (relatedRoots bk) (int (length (relatedRoots bk)) - i)
      in if root = None \<or> root \<noteq> relatedRoot then
           (case DOMEventMetadata_getPooled True pool of
              (m, pool') \<Rightarrow>
                (let bk1 = bk\<lparr>ancestorMetadata :=
                                js_set (ancestorMetadata bk) (length (ancestors bk)) (Some m)\<rparr>
                 in (bk1\<lparr>ancestors :=
                          js_push (ancestors bk1)
                            (js_get (relatedAncestors bk1)
                               (int (length (relatedAncestors bk1)) - i))\<rparr>,
                     pool')))
         else (bk, pool))"

text \<open>\<^verbatim>\<open>for (i = -1; i < bookKeeping.relatedAncestors.length - 1; i++) { ... }\<close>\<close>

function reconcileLoop ::
  "bookKeeping \<Rightarrow> DOMEventMetadata list \<Rightarrow> int \<Rightarrow> bookKeeping \<times> DOMEventMetadata list"
where
  "reconcileLoop bk pool i =
     (if i < int (length (relatedAncestors bk)) - 1 then
        (case reconcileStep bk pool i of
           (bk', pool') \<Rightarrow> reconcileLoop bk' pool' (i + 1))
      else (bk, pool))"
  by pat_completeness auto
termination
  by (relation "measure (\<lambda>(bk, pool, i). nat (int (length (relatedAncestors bk)) - 1 - i))")
     (auto simp: reconcileStep_def Let_def split: if_splits prod.splits)

text \<open>
  The first part of \<^verbatim>\<open>handleTopLevelImpl\<close>, up to the end of the
  \<^verbatim>\<open>if (bookKeeping.nativeEvent.relatedTarget)\<close> block: it reads the tree and fills the
  record, taking metadata objects from their pool. \<open>None\<close>: a collector loop does not
  return.
\<close>

definition buildAncestors ::
  "tree_env \<Rightarrow> native_event \<Rightarrow> bookKeeping \<Rightarrow> DOMEventMetadata list
     \<Rightarrow> (bookKeeping \<times> DOMEventMetadata list) option"
where
  "buildAncestors env ev bk pool =
     (let nativeEventTarget = getEventTarget ev;
          targetInst = getClosestInstanceFromNode env (Some nativeEventTarget)
      in case collectAncestors env (ancestors bk) (roots bk) targetInst of
           None \<Rightarrow> None
         | Some (as, rs) \<Rightarrow>
             (case metadataLoop (bk\<lparr>ancestors := as, roots := rs\<rparr>) pool 0 of
                (bk1, pool1) \<Rightarrow>
                  (if relatedTarget ev \<noteq> None then
                     (let relatedTargetInst = getClosestInstanceFromNode env (relatedTarget ev)
                      in case collectAncestors env (relatedAncestors bk1) (relatedRoots bk1)
                                relatedTargetInst of
                           None \<Rightarrow> None
                         | Some (ras, rrs) \<Rightarrow>
                             Some (reconcileLoop
                                     (bk1\<lparr>relatedAncestors := ras, relatedRoots := rrs\<rparr>)
                                     pool1 (- 1)))
                   else Some (bk1, pool1))))"

text \<open>
  The last loop of \<^verbatim>\<open>handleTopLevelImpl\<close>, one handler call per index of
  \<open>ancestors\<close>. Calling the \<^verbatim>\<open>null\<close> handler throws; a handler that throws ends the
  loop, with what it did to the world before.
\<close>

function invokeLoop ::
  "bookKeeping \<Rightarrow> native_event \<Rightarrow> nat \<Rightarrow> 'u listener \<Rightarrow> 'u listener \<times> js_error option"
where
  "invokeLoop bk ev i st =
     (if i < length (ancestors bk) then
        (let targetInst = js_get (ancestors bk) (int i);
             call = HandlerCall (topLevelType bk) targetInst (nativeEvent bk) (getEventTarget ev)
                      (js_get (ancestorMetadata bk) (int i))
         in case handleTopLevel st of
              None \<Rightarrow> (st, Some TypeError)
            | Some h \<Rightarrow>
                (case h call (world st) of
                   (w', Some x) \<Rightarrow>
                     (st\<lparr>world := w', log := log st @ [Invoke call]\<rparr>, Some (Thrown x))
                 | (w', None) \<Rightarrow>
                     invokeLoop bk ev (i + 1) (st\<lparr>world := w', log := log st @ [Invoke call]\<rparr>)))
      else (st, None))"
  by pat_completeness auto
termination
  by (relation "measure (\<lambda>(bk, ev, i, st). length (ancestors bk) - i)") auto

text \<open>
  \<^verbatim>\<open>handleTopLevelImpl(bookKeeping)\<close>: the record it was given, as it has changed it,
  the listener, and what it throws. Reading the event of a record whose
  \<^verbatim>\<open>nativeEvent\<close> is \<^verbatim>\<open>null\<close> throws.
\<close>

definition handleTopLevelImpl ::
  "bookKeeping \<Rightarrow> 'u listener \<Rightarrow> (bookKeeping \<times> 'u listener \<times> js_error option) option"
where
  "handleTopLevelImpl bookKeeping st =
     (case nativeEvent bookKeeping of
        None \<Rightarrow> Some (bookKeeping, st, Some TypeError)
      | Some ev \<Rightarrow>
          (case buildAncestors (tree (world st)) ev bookKeeping (metadataPool st) of
             None \<Rightarrow> None
           | Some (bk, pool) \<Rightarrow>
               (case invokeLoop bk ev 0 (st\<lparr>metadataPool := pool\<rparr>) of
                  (st', e) \<Rightarrow> Some (bk, st', e))))"

subsection \<open>\<^verbatim>\<open>dispatchEvent\<close>\<close>

text \<open>
  Modelled from the spec: \<^verbatim>\<open>ReactUpdates.batchedUpdates\<close>, which is not among the
  sources. It runs the function on the argument inside one batched-update scope and
  returns what the function returns; the scope ends when the function does, also when
  it throws.
\<close>

definition batchedUpdates ::
  "('a \<Rightarrow> 'u listener \<Rightarrow> ('a \<times> 'u listener \<times> js_error option) option) \<Rightarrow> 'a \<Rightarrow> 'u listener
     \<Rightarrow> ('a \<times> 'u listener \<times> js_error option) option"
where
  "batchedUpdates fn a st =
     (case fn a (st\<lparr>log := log st @ [BatchStart]\<rparr>) of
        None \<Rightarrow> None
      | Some (a', st', e) \<Rightarrow> Some (a', st'\<lparr>log := log st' @ [BatchEnd]\<rparr>, e))"

text \<open>
  \<^verbatim>\<open>TopLevelCallbackBookKeeping.release\<close>: the destructor, then the record goes back
  to the free list, unless the destructor throws.
\<close>

definition TopLevelCallbackBookKeeping_release ::
  "bookKeeping \<Rightarrow> 'u listener \<Rightarrow> 'u listener \<times> js_error option"
where
  "TopLevelCallbackBookKeeping_release bk st =
     (case TopLevelCallbackBookKeeping_destructor bk (metadataPool st) of
        (bk', pool', Some e) \<Rightarrow> (st\<lparr>metadataPool := pool'\<rparr>, Some e)
      | (bk', pool', None) \<Rightarrow>
          (st\<lparr>metadataPool := pool', bookKeepingPool := bookKeepingPool st @ [bk']\<rparr>, None))"

text \<open>
  \<^verbatim>\<open>dispatchEvent(topLevelType, nativeEvent)\<close>: the listener afterwards and what the
  call throws. The \<^verbatim>\<open>finally\<close> block runs on both exits of the \<^verbatim>\<open>try\<close> block, and
  what it throws replaces what the \<^verbatim>\<open>try\<close> block threw.
\<close>

definition dispatchEvent ::
  "string \<Rightarrow> native_event \<Rightarrow> 'u listener \<Rightarrow> ('u listener \<times> js_error option) option"
where
  "dispatchEvent tlt ev st =
     (if \<not> toBoolean (enabled st) then Some (st, None)
      else
        (case TopLevelCallbackBookKeeping_getPooled tlt ev (bookKeepingPool st) of
           (bookKeeping, bkPool) \<Rightarrow>
             (case batchedUpdates handleTopLevelImpl bookKeeping (st\<lparr>bookKeepingPool := bkPool\<rparr>) of
                None \<Rightarrow> None
              | Some (bk, st1, e) \<Rightarrow>
                  (case TopLevelCallbackBookKeeping_release bk st1 of
                     (st2, Some e') \<Rightarrow> Some (st2, Some e')
                   | (st2, None) \<Rightarrow> Some (st2, e)))))"

subsection \<open>Trapping native events\<close>

text \<open>
  The callback \<^verbatim>\<open>ReactEventListener.dispatchEvent.bind(null, topLevelType)\<close>, and what
  calling it with an event does.
\<close>

datatype callback = DispatchEventBound string

fun callCallback ::
  "callback \<Rightarrow> native_event \<Rightarrow> 'u listener \<Rightarrow> ('u listener \<times> js_error option) option"
where
  "callCallback (DispatchEventBound tlt) ev st = dispatchEvent tlt ev st"

text \<open>
  Modelled from the spec: \<^verbatim>\<open>EventListener\<close>, which is not among the sources.
  \<^verbatim>\<open>listen\<close> attaches a native listener for the event name on the element in the
  bubble phase, \<^verbatim>\<open>capture\<close> in the capture phase; each returns a handle whose sole
  operation removes that native listener. The document's listeners are the list of
  those attached and not removed.
\<close>

record 'el registration =
  regElement :: 'el
  regEventName :: string
  regCapture :: bool
  regCallback :: callback

datatype 'el handle = Handle "'el registration"

definition EventListener_listen ::
  "'el \<Rightarrow> string \<Rightarrow> callback \<Rightarrow> 'el registration list \<Rightarrow> 'el handle \<times> 'el registration list"
where
  "EventListener_listen element name cb regs =
     (let r = \<lparr>regElement = element, regEventName = name, regCapture = False, regCallback = cb\<rparr>
      in (Handle r, regs @ [r]))"

definition EventListener_capture ::
  "'el \<Rightarrow> string \<Rightarrow> callback \<Rightarrow> 'el registration list \<Rightarrow> 'el handle \<times> 'el registration list"
where
  "EventListener_capture element name cb regs =
     (let r = \<lparr>regElement = element, regEventName = name, regCapture = True, regCallback = cb\<rparr>
      in (Handle r, regs @ [r]))"

fun remove :: "'el handle \<Rightarrow> 'el registration list \<Rightarrow> 'el registration list" where
  "remove (Handle r) regs = remove1 r regs"

text \<open>
  \<^verbatim>\<open>trapBubbledEvent\<close> and \<^verbatim>\<open>trapCapturedEvent\<close>; the third argument is \<open>None\<close>
  when the element is absent, and the result \<open>None\<close> is \<^verbatim>\<open>null\<close>.
\<close>

definition trapBubbledEvent ::
  "string \<Rightarrow> string \<Rightarrow> 'el option \<Rightarrow> 'el registration list
     \<Rightarrow> 'el handle option \<times> 'el registration list"
where
  "trapBubbledEvent tlt handlerBaseName handle regs =
     (case handle of
        None \<Rightarrow> (None, regs)
      | Some element \<Rightarrow>
          (case EventListener_listen element handlerBaseName (DispatchEventBound tlt) regs of
             (h, regs') \<Rightarrow> (Some h, regs')))"

definition trapCapturedEvent ::
  "string \<Rightarrow> string \<Rightarrow> 'el option \<Rightarrow> 'el registration list
     \<Rightarrow> 'el handle option \<times> 'el registration list"
where
  "trapCapturedEvent tlt handlerBaseName handle regs =
     (case handle of
        None \<Rightarrow> (None, regs)
      | Some element \<Rightarrow>
          (case EventListener_capture element handlerBaseName (DispatchEventBound tlt) regs of
             (h, regs') \<Rightarrow> (Some h, regs')))"

subsection \<open>What the description of the dispatcher prescribes\<close>

text \<open>
  The calls the handler is to receive in one dispatch, from the description and not from
  the code: one per ancestor, in list order, each with the event type, the ancestor, the
  native event, the event's target node and the ancestor's metadata.
\<close>

definition specifiedCalls :: "string \<Rightarrow> native_event \<Rightarrow> bookKeeping \<Rightarrow> handler_call list" where
  "specifiedCalls tlt ev bk =
     map (\<lambda>(a, m). HandlerCall (Some tlt) a (Some ev) (getEventTarget ev) m)
       (zip (ancestors bk) (ancestorMetadata bk))"

text \<open>
  Running the handler over a list of calls as the description has it: the calls are made
  in list order, each in the world the call before it left, and a call that throws is
  the last one made. The result is the calls made, the world after them and the value
  thrown, if any.
\<close>

fun runCalls ::
  "'u handler \<Rightarrow> handler_call list \<Rightarrow> 'u world
     \<Rightarrow> handler_call list \<times> 'u world \<times> js_value option"
where
  "runCalls h [] w = ([], w, None)"
| "runCalls h (c # cs) w =
     (case h c w of
        (w', Some v) \<Rightarrow> ([c], w', Some v)
      | (w', None) \<Rightarrow>
          (case runCalls h cs w' of (made, w'', r) \<Rightarrow> (c # made, w'', r)))"

text \<open>
  The states the listener can be in: the one the module is loaded with, and those its
  operations lead to.
\<close>

inductive reachable :: "'u listener \<Rightarrow> bool" where
  reach_initial: "reachable (initialListener w)"
| reach_setEnabled: "reachable st \<Longrightarrow> reachable (setEnabled x st)"
| reach_setHandleTopLevel: "reachable st \<Longrightarrow> reachable (setHandleTopLevel h st)"
| reach_dispatchEvent:
    "reachable st \<Longrightarrow> dispatchEvent tlt ev st = Some (st', e) \<Longrightarrow> reachable st'"

subsection \<open>A document to run the listener on\<close>

text \<open>
  Three trees. Tree A is mounted in container 100: instance 1 (node 10) is outermost,
  instances 2 (node 12) and 5 (node 15) are its children. Tree B is nested in A: its
  container, node 30, is a child of node 12; instance 3 (node 40) is outermost and
  instance 4 (node 41) is its child. Tree C is mounted in container 200, apart from both:
  instance 6 (node 60) is outermost and instance 7 (node 61) is its child.
\<close>

definition docHostParent :: "inst \<Rightarrow> inst option" where
  "docHostParent i =
     (if i = 2 \<or> i = 5 then Some 1 else if i = 4 then Some 3 else if i = 7 then Some 6 else None)"

definition docNode :: "inst \<Rightarrow> node" where
  "docNode i =
     (if i = 1 then 10 else if i = 2 then 12 else if i = 5 then 15 else if i = 3 then 40
      else if i = 4 then 41 else if i = 6 then 60 else 61)"

definition docParentNode :: "node \<Rightarrow> node option" where
  "docParentNode n =
     (if n = 10 then Some 100 else if n = 12 \<or> n = 15 then Some 10
      else if n = 30 then Some 12 else if n = 40 then Some 30 else if n = 41 then Some 40
      else if n = 60 then Some 200 else if n = 61 then Some 60 else None)"

definition docClosest :: "node option \<Rightarrow> inst option" where
  "docClosest n =
     (if n = Some 10 then Some 1 else if n = Some 12 \<or> n = Some 30 then Some 2
      else if n = Some 15 then Some 5 else if n = Some 40 then Some 3
      else if n = Some 41 then Some 4 else if n = Some 60 then Some 6
      else if n = Some 61 then Some 7 else None)"

definition docEnv :: tree_env where
  "docEnv = \<lparr>hostParent = docHostParent, getNodeFromInstance = docNode,
             parentNode = docParentNode, getClosestInstanceFromNode = docClosest\<rparr>"

text \<open>
  A click on the leaf of the nested tree; a pointer moving from node 12 to node 15, both
  in tree A; a pointer moving from node 12 of tree A to node 61 of tree C, and one moving
  from node 12 to node 60, the node of the outermost instance of tree C.
\<close>

definition clickNested :: native_event where
  "clickNested = \<lparr>target = 41, relatedTarget = None\<rparr>"

definition overSameRoot :: native_event where
  "overSameRoot = \<lparr>target = 12, relatedTarget = Some 15\<rparr>"

definition overOtherRoot :: native_event where
  "overOtherRoot = \<lparr>target = 12, relatedTarget = Some 61\<rparr>"

definition overOtherRootTop :: native_event where
  "overOtherRootTop = \<lparr>target = 12, relatedTarget = Some 60\<rparr>"

text \<open>
  A handler that notes each call in its own state, one that notes the call and then
  throws, and one that notes the call and throws when the instance is 2.
\<close>

definition recordingHandler :: "handler_call list handler" where
  "recordingHandler c w = (w\<lparr>user := user w @ [c]\<rparr>, None)"

definition throwingHandler :: "handler_call list handler" where
  "throwingHandler c w = (w\<lparr>user := user w @ [c]\<rparr>, Some (JString ''boom''))"

definition recordingListener :: "handler_call list listener" where
  "recordingListener =
     setHandleTopLevel recordingHandler (initialListener \<lparr>tree = docEnv, user = []\<rparr>)"

definition throwingListener :: "handler_call list listener" where
  "throwingListener =
     setHandleTopLevel throwingHandler (initialListener \<lparr>tree = docEnv, user = []\<rparr>)"

definition throwAtOwnerHandler :: "handler_call list handler" where
  "throwAtOwnerHandler c w =
     (w\<lparr>user := user w @ [c]\<rparr>,
      case c of HandlerCall tlt a ev n m \<Rightarrow>
        if a = Some 2 then Some (JString ''boom'') else None)"

definition throwAtOwnerListener :: "handler_call list listener" where
  "throwAtOwnerListener =
     setHandleTopLevel throwAtOwnerHandler (initialListener \<lparr>tree = docEnv, user = []\<rparr>)"

section \<open>Properties\<close>

subsection \<open>The loops, one at a time\<close>

lemma hostRoot_top: "hostParent env a = None \<Longrightarrow> hostRoot env a = Some a"
  by (subst hostRoot.simps) simp

lemma hostRoot_up: "hostParent env a = Some p \<Longrightarrow> hostRoot env a = hostRoot env p"
  by (subst hostRoot.simps) simp

lemma collectLoop_stop:
  "hostRoot env a = Some t \<Longrightarrow>
   getClosestInstanceFromNode env (parentNode env (getNodeFromInstance env t)) = None \<Longrightarrow>
   collectLoop env as rs a = Some (as @ [Some a], rs @ [Some (getNodeFromInstance env t)])"
  by (subst collectLoop.simps) (simp add: js_push_def)

lemma collectLoop_next:
  "hostRoot env a = Some t \<Longrightarrow>
   getClosestInstanceFromNode env (parentNode env (getNodeFromInstance env t)) = Some n \<Longrightarrow>
   collectLoop env as rs a =
     collectLoop env (as @ [Some a]) (rs @ [Some (getNodeFromInstance env t)]) n"
  by (subst collectLoop.simps) (simp add: js_push_def)

lemma getPooled_eq:
  "DOMEventMetadata_getPooled b pool = (\<lparr>isRelatedTarget = Some b\<rparr>, butlast pool)"
  by (simp add: DOMEventMetadata_getPooled_def DOMEventMetadata_constructor_def)

lemma destructor_eq: "DOMEventMetadata_destructor m = \<lparr>isRelatedTarget = None\<rparr>"
  by (simp add: DOMEventMetadata_destructor_def)

lemma js_set_end: "js_set xs (length xs) v = xs @ [v]"
  by (simp add: js_set_def)

lemma metadataLoop_eq:
  "length (ancestorMetadata bk) = i \<Longrightarrow> i \<le> length (ancestors bk) \<Longrightarrow>
   metadataLoop bk pool i =
     (bk\<lparr>ancestorMetadata := ancestorMetadata bk @
            replicate (length (ancestors bk) - i) (Some \<lparr>isRelatedTarget = Some False\<rparr>)\<rparr>,
      take (length pool - (length (ancestors bk) - i)) pool)"
proof (induction bk pool i rule: metadataLoop.induct)
  case (1 bk pool i)
  show ?case
  proof (cases "i < length (ancestors bk)")
    case False
    with "1.prems" show ?thesis by simp
  next
    case True
    let ?m = "\<lparr>isRelatedTarget = Some False\<rparr>"
    let ?bk = "bk\<lparr>ancestorMetadata := js_set (ancestorMetadata bk) i (Some ?m)\<rparr>"
    have set: "js_set (ancestorMetadata bk) i (Some ?m) = ancestorMetadata bk @ [Some ?m]"
      using "1.prems"(1) js_set_end by blast
    have ih: "metadataLoop ?bk (butlast pool) (i + 1) =
      (?bk\<lparr>ancestorMetadata := ancestorMetadata ?bk @
            replicate (length (ancestors ?bk) - (i + 1)) (Some ?m)\<rparr>,
       take (length (butlast pool) - (length (ancestors ?bk) - (i + 1))) (butlast pool))"
      using "1.IH" [OF True getPooled_eq [symmetric]] True "1.prems" by (simp add: set)
    have rep: "[Some ?m] @ replicate (length (ancestors bk) - (i + 1)) (Some ?m)
        = replicate (length (ancestors bk) - i) (Some ?m)"
      using True by (metis Suc_diff_Suc Suc_eq_plus1 append_Cons append_Nil replicate_Suc)
    have tk: "take (length (butlast pool) - (length (ancestors bk) - (i + 1))) (butlast pool)
        = take (length pool - (length (ancestors bk) - i)) pool"
      using True by (simp add: butlast_conv_take min_def)
    have "metadataLoop bk pool i = metadataLoop ?bk (butlast pool) (i + 1)"
      using True by (subst metadataLoop.simps) (simp add: getPooled_eq)
    then show ?thesis using ih rep tk by (simp add: set)
  qed
qed

lemma releaseLoop_eq:
  "None \<notin> set (ancestorMetadata this) \<Longrightarrow>
   releaseLoop this pool i =
     (pool @ replicate (length (ancestorMetadata this) - i) \<lparr>isRelatedTarget = None\<rparr>, None)"
proof (induction this pool i rule: releaseLoop.induct)
  case (1 this pool i)
  show ?case
  proof (cases "i < length (ancestorMetadata this)")
    case False
    then show ?thesis by simp
  next
    case True
    then have "ancestorMetadata this ! i \<noteq> None"
      using "1.prems" by (metis nth_mem)
    then obtain m where m: "js_get (ancestorMetadata this) (int i) = Some m"
      using True by (auto simp: js_get_def)
    have rel: "DOMEventMetadata_release (Some m) pool = (pool @ [\<lparr>isRelatedTarget = None\<rparr>], None)"
      by (simp add: DOMEventMetadata_release_def destructor_eq)
    have ih: "releaseLoop this (pool @ [\<lparr>isRelatedTarget = None\<rparr>]) (i + 1) =
       ((pool @ [\<lparr>isRelatedTarget = None\<rparr>]) @
          replicate (length (ancestorMetadata this) - (i + 1)) \<lparr>isRelatedTarget = None\<rparr>, None)"
      using "1.IH" True m rel "1.prems" by simp
    have rep: "[\<lparr>isRelatedTarget = None\<rparr>] @
          replicate (length (ancestorMetadata this) - (i + 1)) \<lparr>isRelatedTarget = None\<rparr>
        = replicate (length (ancestorMetadata this) - i) \<lparr>isRelatedTarget = None\<rparr>"
      using True by (metis Suc_diff_Suc Suc_eq_plus1 append_Cons append_Nil replicate_Suc)
    have "releaseLoop this pool i = releaseLoop this (pool @ [\<lparr>isRelatedTarget = None\<rparr>]) (i + 1)"
      using True m rel by (subst releaseLoop.simps) simp
    then show ?thesis using ih rep by simp
  qed
qed

lemma reconcileStep_inv:
  assumes "reconcileStep bk pool i = (bk', pool')"
    and "length (ancestors bk) = length (ancestorMetadata bk)"
  shows "\<exists>xs. ancestors bk' = ancestors bk @ xs \<and>
    ancestorMetadata bk' = ancestorMetadata bk @
       replicate (length xs) (Some \<lparr>isRelatedTarget = Some True\<rparr>) \<and>
    pool' = take (length pool - length xs) pool \<and>
    relatedAncestors bk' = relatedAncestors bk \<and> roots bk' = roots bk \<and>
    relatedRoots bk' = relatedRoots bk \<and> topLevelType bk' = topLevelType bk \<and>
    nativeEvent bk' = nativeEvent bk"
proof -
  define c where "c \<longleftrightarrow> js_get (roots bk) (int (length (roots bk)) - i) = None \<or>
    js_get (roots bk) (int (length (roots bk)) - i)
      \<noteq> js_get (relatedRoots bk) (int (length (relatedRoots bk)) - i)"
  let ?x = "js_get (relatedAncestors bk) (int (length (relatedAncestors bk)) - i)"
  have step: "reconcileStep bk pool i =
     (if c then (bk\<lparr>ancestorMetadata := ancestorMetadata bk @ [Some \<lparr>isRelatedTarget = Some True\<rparr>],
                     ancestors := ancestors bk @ [?x]\<rparr>, butlast pool)
      else (bk, pool))"
    unfolding c_def
    by (auto simp: reconcileStep_def Let_def getPooled_eq js_push_def assms(2) js_set_end)
  show ?thesis
  proof (cases c)
    case False
    then have "bk' = bk" "pool' = pool"
      using assms(1) step by simp_all
    then show ?thesis by (intro exI [of _ "[]"]) simp
  next
    case True
    then have "bk' = bk\<lparr>ancestorMetadata := ancestorMetadata bk @ [Some \<lparr>isRelatedTarget = Some True\<rparr>],
                 ancestors := ancestors bk @ [?x]\<rparr>" "pool' = butlast pool"
      using assms(1) step by simp_all
    then show ?thesis
      by (intro exI [of _ "[?x]"]) (simp add: butlast_conv_take)
  qed
qed

lemma reconcileLoop_inv:
  "reconcileLoop bk pool i = (bk', pool') \<Longrightarrow>
   length (ancestors bk) = length (ancestorMetadata bk) \<Longrightarrow>
   \<exists>xs. ancestors bk' = ancestors bk @ xs \<and>
    ancestorMetadata bk' = ancestorMetadata bk @
       replicate (length xs) (Some \<lparr>isRelatedTarget = Some True\<rparr>) \<and>
    pool' = take (length pool - length xs) pool \<and>
    relatedAncestors bk' = relatedAncestors bk \<and> roots bk' = roots bk \<and>
    relatedRoots bk' = relatedRoots bk \<and> topLevelType bk' = topLevelType bk \<and>
    nativeEvent bk' = nativeEvent bk"
proof (induction bk pool i arbitrary: bk' pool' rule: reconcileLoop.induct)
  case (1 bk pool i)
  show ?case
  proof (cases "i < int (length (relatedAncestors bk)) - 1")
    case False
    then have "bk' = bk" "pool' = pool" using "1.prems"(1) by auto
    then show ?thesis by (intro exI [of _ "[]"]) simp
  next
    case True
    obtain bk1 pool1 where step: "reconcileStep bk pool i = (bk1, pool1)"
      by (cases "reconcileStep bk pool i")
    from reconcileStep_inv [OF step "1.prems"(2)] obtain xs where xs:
      "ancestors bk1 = ancestors bk @ xs"
      "ancestorMetadata bk1 = ancestorMetadata bk @
         replicate (length xs) (Some \<lparr>isRelatedTarget = Some True\<rparr>)"
      "pool1 = take (length pool - length xs) pool"
      "relatedAncestors bk1 = relatedAncestors bk" "roots bk1 = roots bk"
      "relatedRoots bk1 = relatedRoots bk" "topLevelType bk1 = topLevelType bk"
      "nativeEvent bk1 = nativeEvent bk"
      by blast
    have rest: "reconcileLoop bk1 pool1 (i + 1) = (bk', pool')"
      using "1.prems"(1) True step by (subst (asm) reconcileLoop.simps) simp
    have len1: "length (ancestors bk1) = length (ancestorMetadata bk1)"
      using xs "1.prems"(2) by simp
    from "1.IH" [OF True step [symmetric] rest len1] obtain ys where ys:
      "ancestors bk' = ancestors bk1 @ ys"
      "ancestorMetadata bk' = ancestorMetadata bk1 @
         replicate (length ys) (Some \<lparr>isRelatedTarget = Some True\<rparr>)"
      "pool' = take (length pool1 - length ys) pool1"
      "relatedAncestors bk' = relatedAncestors bk1" "roots bk' = roots bk1"
      "relatedRoots bk' = relatedRoots bk1" "topLevelType bk' = topLevelType bk1"
      "nativeEvent bk' = nativeEvent bk1"
      by blast
    have pl: "pool' = take (length pool - length (xs @ ys)) pool"
      using xs(3) ys(3) by (simp add: take_take min_def) (metis diff_diff_left diff_le_self min.absorb1 min.commute)
    show ?thesis
      using xs ys pl
      by (intro exI [of _ "xs @ ys"]) (simp add: replicate_add)
  qed
qed

lemma buildAncestors_shape:
  assumes "buildAncestors env ev (TopLevelCallbackBookKeeping tlt ev) pool = Some (bk, pool')"
  shows "\<exists>as xs. ancestors bk = as @ xs \<and>
    collectAncestors env [] [] (getClosestInstanceFromNode env (Some (getEventTarget ev)))
      = Some (as, roots bk) \<and>
    ancestorMetadata bk = replicate (length as) (Some \<lparr>isRelatedTarget = Some False\<rparr>) @
       replicate (length xs) (Some \<lparr>isRelatedTarget = Some True\<rparr>) \<and>
    pool' = take (length pool - (length as + length xs)) pool \<and>
    (relatedTarget ev = None \<longrightarrow> xs = []) \<and>
    topLevelType bk = Some tlt \<and> nativeEvent bk = Some ev"
proof -
  let ?bk0 = "TopLevelCallbackBookKeeping tlt ev"
  let ?t = "getClosestInstanceFromNode env (Some (getEventTarget ev))"
  obtain as rs where col: "collectAncestors env [] [] ?t = Some (as, rs)"
    using assms by (auto simp: buildAncestors_def TopLevelCallbackBookKeeping_def Let_def
        split: option.splits)
  let ?bk1 = "?bk0\<lparr>ancestors := as, roots := rs\<rparr>"
  let ?F = "Some \<lparr>isRelatedTarget = Some False\<rparr>"
  let ?bk2 = "?bk1\<lparr>ancestorMetadata := replicate (length as) ?F\<rparr>"
  let ?pool2 = "take (length pool - length as) pool"
  have ml: "metadataLoop ?bk1 pool 0 = (?bk2, ?pool2)"
    by (subst metadataLoop_eq) (simp_all add: TopLevelCallbackBookKeeping_def)
  show ?thesis
  proof (cases "relatedTarget ev")
    case None
    then have "bk = ?bk2" "pool' = ?pool2"
      using assms col ml
      by (auto simp: buildAncestors_def Let_def TopLevelCallbackBookKeeping_def)
    then show ?thesis using col None
      by (intro exI [of _ as] exI [of _ "[]"]) (simp add: TopLevelCallbackBookKeeping_def)
  next
    case (Some rn)
    obtain ras rrs where rcol: "collectAncestors env [] []
        (getClosestInstanceFromNode env (relatedTarget ev)) = Some (ras, rrs)"
      using assms col ml Some
      by (auto simp: buildAncestors_def Let_def TopLevelCallbackBookKeeping_def
          split: option.splits)
    let ?bk3 = "?bk2\<lparr>relatedAncestors := ras, relatedRoots := rrs\<rparr>"
    have rl: "reconcileLoop ?bk3 ?pool2 (- 1) = (bk, pool')"
      using assms col ml Some rcol
      by (simp add: buildAncestors_def Let_def TopLevelCallbackBookKeeping_def)
    have len: "length (ancestors ?bk3) = length (ancestorMetadata ?bk3)"
      by (simp add: TopLevelCallbackBookKeeping_def)
    from reconcileLoop_inv [OF rl len] obtain xs where xs:
      "ancestors bk = ancestors ?bk3 @ xs"
      "ancestorMetadata bk = ancestorMetadata ?bk3 @
         replicate (length xs) (Some \<lparr>isRelatedTarget = Some True\<rparr>)"
      "pool' = take (length ?pool2 - length xs) ?pool2"
      "roots bk = roots ?bk3" "topLevelType bk = topLevelType ?bk3"
      "nativeEvent bk = nativeEvent ?bk3"
      by blast
    have pl: "pool' = take (length pool - (length as + length xs)) pool"
      using xs(3) by (simp add: take_take min_def) (metis diff_diff_left diff_le_self min.absorb1 min.commute)
    show ?thesis
      using xs col pl Some
      by (intro exI [of _ as] exI [of _ xs]) (simp add: TopLevelCallbackBookKeeping_def)
  qed
qed

lemma invokeLoop_frame:
  "invokeLoop bk ev i st = (st', e) \<Longrightarrow>
   metadataPool st' = metadataPool st \<and> bookKeepingPool st' = bookKeepingPool st \<and>
   enabled st' = enabled st \<and> handleTopLevel st' = handleTopLevel st"
proof (induction bk ev i st arbitrary: st' e rule: invokeLoop.induct)
  case (1 bk ev i st)
  show ?case
  proof (cases "i < length (ancestors bk)")
    case False
    then show ?thesis using "1.prems" by simp
  next
    case True
    note lt = True
    show ?thesis
    proof (cases "handleTopLevel st")
      case None
      then show ?thesis using "1.prems" lt by (subst (asm) invokeLoop.simps) simp
    next
      case (Some h)
      let ?c = "HandlerCall (topLevelType bk) (js_get (ancestors bk) (int i)) (nativeEvent bk)
                  (getEventTarget ev) (js_get (ancestorMetadata bk) (int i))"
      obtain w' r where hc: "h ?c (world st) = (w', r)" by (cases "h ?c (world st)")
      let ?st1 = "st\<lparr>world := w', log := log st @ [Invoke ?c]\<rparr>"
      show ?thesis
      proof (cases r)
        case (Some x)
        then have "st' = ?st1"
          using "1.prems" lt \<open>handleTopLevel st = Some h\<close> hc
          by (subst (asm) invokeLoop.simps) (simp add: Let_def)
        then show ?thesis by simp
      next
        case None
        then have rest: "invokeLoop bk ev (i + 1) ?st1 = (st', e)"
          using "1.prems" lt \<open>handleTopLevel st = Some h\<close> hc
          by (subst (asm) invokeLoop.simps) (simp add: Let_def)
        have "metadataPool st' = metadataPool ?st1 \<and> bookKeepingPool st' = bookKeepingPool ?st1 \<and>
          enabled st' = enabled ?st1 \<and> handleTopLevel st' = handleTopLevel ?st1"
          using "1.IH" [OF lt refl refl \<open>handleTopLevel st = Some h\<close> hc [symmetric] _ rest] None
          by simp
        then show ?thesis by simp
      qed
    qed
  qed
qed

lemma specifiedCalls_length:
  "length (ancestors bk) = length (ancestorMetadata bk) \<Longrightarrow>
   length (specifiedCalls tlt ev bk) = length (ancestors bk)"
  by (simp add: specifiedCalls_def)

lemma specifiedCalls_nth:
  assumes "length (ancestors bk) = length (ancestorMetadata bk)" "i < length (ancestors bk)"
    "topLevelType bk = Some tlt" "nativeEvent bk = Some ev"
  shows "specifiedCalls tlt ev bk ! i =
    HandlerCall (topLevelType bk) (js_get (ancestors bk) (int i)) (nativeEvent bk)
      (getEventTarget ev) (js_get (ancestorMetadata bk) (int i))"
  using assms by (simp add: specifiedCalls_def js_get_def)

lemma runCalls_prefix:
  "runCalls h cs w = (made, w', r) \<Longrightarrow>
   \<exists>k. k \<le> length cs \<and> made = take k cs \<and> (r = None \<longrightarrow> k = length cs) \<and>
       (r \<noteq> None \<longrightarrow> 0 < k)"
proof (induction cs arbitrary: w made w' r)
  case Nil
  then show ?case by simp
next
  case (Cons c cs)
  obtain w1 r1 where hc: "h c w = (w1, r1)" by (cases "h c w")
  show ?case
  proof (cases r1)
    case (Some v)
    then have "made = [c]" "r = Some v" using Cons.prems hc by simp_all
    then show ?thesis by (intro exI [of _ 1]) simp
  next
    case None
    obtain made1 w2 r2 where rc: "runCalls h cs w1 = (made1, w2, r2)"
      by (cases "runCalls h cs w1")
    have eq: "made = c # made1" "r = r2" using Cons.prems hc None rc by simp_all
    from Cons.IH [OF rc] obtain k where k: "k \<le> length cs" "made1 = take k cs"
      "r2 = None \<longrightarrow> k = length cs" "r2 \<noteq> None \<longrightarrow> 0 < k" by blast
    show ?thesis using k eq by (intro exI [of _ "Suc k"]) simp
  qed
qed

lemma invokeLoop_runCalls:
  assumes "handleTopLevel st = Some h"
    and "length (ancestors bk) = length (ancestorMetadata bk)"
    and "topLevelType bk = Some tlt" and "nativeEvent bk = Some ev"
    and "runCalls h (drop i (specifiedCalls tlt ev bk)) (world st) = (made, w', r)"
  shows "invokeLoop bk ev i st =
    (st\<lparr>world := w', log := log st @ map Invoke made\<rparr>, map_option Thrown r)"
  using assms
proof (induction bk ev i st arbitrary: made w' r rule: invokeLoop.induct)
  case (1 bk ev i st)
  let ?cs = "specifiedCalls tlt ev bk"
  have len: "length ?cs = length (ancestors bk)"
    using specifiedCalls_length [OF "1.prems"(2)] .
  show ?case
  proof (cases "i < length (ancestors bk)")
    case False
    then have "drop i ?cs = []" using len by simp
    then have "made = []" "w' = world st" "r = None" using "1.prems"(5) by simp_all
    then show ?thesis using False by (cases st) simp
  next
    case True
    note lt = True
    let ?c = "HandlerCall (topLevelType bk) (js_get (ancestors bk) (int i)) (nativeEvent bk)
                (getEventTarget ev) (js_get (ancestorMetadata bk) (int i))"
    have ci: "?cs ! i = ?c"
      using specifiedCalls_nth [OF "1.prems"(2) lt "1.prems"(3) "1.prems"(4)] .
    have dr: "drop i ?cs = ?c # drop (i + 1) ?cs"
      using ci len lt by (metis Cons_nth_drop_Suc Suc_eq_plus1)
    obtain w1 r1 where hc: "h ?c (world st) = (w1, r1)" by (cases "h ?c (world st)")
    let ?st1 = "st\<lparr>world := w1, log := log st @ [Invoke ?c]\<rparr>"
    show ?thesis
    proof (cases r1)
      case (Some v)
      then have res: "made = [?c]" "w' = w1" "r = Some v"
        using "1.prems"(5) dr hc by simp_all
      have "invokeLoop bk ev i st = (?st1, Some (Thrown v))"
        using lt "1.prems"(1) hc Some by (subst invokeLoop.simps) (simp add: Let_def)
      then show ?thesis using res by simp
    next
      case None
      obtain made1 w2 r2 where rc:
        "runCalls h (drop (i + 1) ?cs) w1 = (made1, w2, r2)"
        by (cases "runCalls h (drop (i + 1) ?cs) w1")
      have res: "made = ?c # made1" "w' = w2" "r = r2"
        using "1.prems"(5) dr hc None rc by simp_all
      have h1: "handleTopLevel ?st1 = Some h" using "1.prems"(1) by simp
      have rc1: "runCalls h (drop (i + 1) ?cs) (world ?st1) = (made1, w2, r2)"
        using rc by simp
      have step: "invokeLoop bk ev i st = invokeLoop bk ev (i + 1) ?st1"
        using lt "1.prems"(1) hc None by (subst invokeLoop.simps) (simp add: Let_def)
      have "invokeLoop bk ev (i + 1) ?st1 =
          (?st1\<lparr>world := w2, log := log ?st1 @ map Invoke made1\<rparr>, map_option Thrown r2)"
        using "1.IH" [OF lt refl refl "1.prems"(1) hc [symmetric] _ h1 "1.prems"(2)
            "1.prems"(3) "1.prems"(4) rc1] None by simp
      then show ?thesis using step res by simp
    qed
  qed
qed

lemma invokeLoop_no_handler:
  "handleTopLevel st = None \<Longrightarrow>
   invokeLoop bk ev 0 st = (st, if ancestors bk = [] then None else Some TypeError)"
  by (subst invokeLoop.simps) (simp add: Let_def)

lemma invokeLoop_indep:
  "handleTopLevel s = handleTopLevel s' \<Longrightarrow> world s = world s' \<Longrightarrow>
   snd (invokeLoop bk ev i s) = snd (invokeLoop bk ev i s')"
proof (induction bk ev i s arbitrary: s' rule: invokeLoop.induct)
  case (1 bk ev i st)
  show ?case
  proof (cases "i < length (ancestors bk)")
    case False
    then show ?thesis by simp
  next
    case True
    note lt = True
    show ?thesis
    proof (cases "handleTopLevel st")
      case None
      then show ?thesis using lt "1.prems"
        by (subst invokeLoop.simps, subst (2) invokeLoop.simps) (simp add: Let_def)
    next
      case (Some h)
      let ?c = "HandlerCall (topLevelType bk) (js_get (ancestors bk) (int i)) (nativeEvent bk)
                  (getEventTarget ev) (js_get (ancestorMetadata bk) (int i))"
      obtain w' r where hc: "h ?c (world st) = (w', r)" by (cases "h ?c (world st)")
      let ?st1 = "st\<lparr>world := w', log := log st @ [Invoke ?c]\<rparr>"
      let ?s1 = "s'\<lparr>world := w', log := log s' @ [Invoke ?c]\<rparr>"
      have hs: "handleTopLevel s' = Some h" using "1.prems"(1) Some by simp
      have hc': "h ?c (world s') = (w', r)" using hc "1.prems"(2) by simp
      show ?thesis
      proof (cases r)
        case (Some x)
        have a: "invokeLoop bk ev i st = (?st1, Some (Thrown x))"
          using lt \<open>handleTopLevel st = Some h\<close> hc Some
          by (subst invokeLoop.simps) (simp add: Let_def)
        have b: "invokeLoop bk ev i s' = (?s1, Some (Thrown x))"
          using lt hs hc' Some
          by (subst invokeLoop.simps) (simp add: Let_def)
        show ?thesis using a b by simp
      next
        case None
        have a: "invokeLoop bk ev i st = invokeLoop bk ev (i + 1) ?st1"
          using lt \<open>handleTopLevel st = Some h\<close> hc None
          by (subst invokeLoop.simps) (simp add: Let_def)
        have b: "invokeLoop bk ev i s' = invokeLoop bk ev (i + 1) ?s1"
          using lt hs hc' None
          by (subst invokeLoop.simps) (simp add: Let_def)
        have "snd (invokeLoop bk ev (i + 1) ?st1) = snd (invokeLoop bk ev (i + 1) ?s1)"
          using "1.IH" [OF lt refl refl \<open>handleTopLevel st = Some h\<close> hc [symmetric], of ?s1]
            None "1.prems" by simp
        then show ?thesis using a b by simp
      qed
    qed
  qed
qed

lemma destructor_eq_all:
  assumes "None \<notin> set (ancestorMetadata bk)"
  shows "TopLevelCallbackBookKeeping_destructor bk pool =
    (\<lparr>topLevelType = None, nativeEvent = None, ancestors = [], ancestorMetadata = [],
      relatedAncestors = [], roots = [], relatedRoots = []\<rparr>,
     pool @ replicate (length (ancestorMetadata bk)) \<lparr>isRelatedTarget = None\<rparr>, None)"
proof -
  let ?b1 = "bk\<lparr>topLevelType := None, nativeEvent := None, ancestors := []\<rparr>"
  have "None \<notin> set (ancestorMetadata ?b1)" using assms by simp
  from releaseLoop_eq [OF this, of pool 0]
  have "releaseLoop ?b1 pool 0 =
      (pool @ replicate (length (ancestorMetadata bk)) \<lparr>isRelatedTarget = None\<rparr>, None)"
    by simp
  then show ?thesis
    by (cases bk) (simp add: TopLevelCallbackBookKeeping_destructor_def Let_def)
qed

lemma buildAncestors_metadata:
  assumes "buildAncestors env ev (TopLevelCallbackBookKeeping tlt ev) pool = Some (bk, pool')"
  shows "length (ancestors bk) = length (ancestorMetadata bk)"
    and "None \<notin> set (ancestorMetadata bk)"
    and "pool' = take (length pool - length (ancestorMetadata bk)) pool"
    and "topLevelType bk = Some tlt" and "nativeEvent bk = Some ev"
  using buildAncestors_shape [OF assms] by auto

lemma dispatchEvent_run:
  assumes en: "toBoolean (enabled st)"
    and build: "buildAncestors (tree (world st)) ev (TopLevelCallbackBookKeeping tlt ev)
                  (metadataPool st) = Some (bk, pool)"
    and inv: "invokeLoop bk ev 0
                (st\<lparr>bookKeepingPool := butlast (bookKeepingPool st),
                    log := log st @ [BatchStart], metadataPool := pool\<rparr>) = (s1, e)"
  shows "dispatchEvent tlt ev st =
    Some (s1\<lparr>log := log s1 @ [BatchEnd],
              metadataPool := pool @ replicate (length (ancestorMetadata bk))
                                       \<lparr>isRelatedTarget = None\<rparr>,
              bookKeepingPool := butlast (bookKeepingPool st) @
                [\<lparr>topLevelType = None, nativeEvent = None, ancestors = [],
                  ancestorMetadata = [], relatedAncestors = [], roots = [],
                  relatedRoots = []\<rparr>]\<rparr>, e)"
proof -
  let ?bk0 = "TopLevelCallbackBookKeeping tlt ev"
  let ?s0 = "st\<lparr>bookKeepingPool := butlast (bookKeepingPool st), log := log st @ [BatchStart]\<rparr>"
  have gp: "TopLevelCallbackBookKeeping_getPooled tlt ev (bookKeepingPool st)
      = (?bk0, butlast (bookKeepingPool st))"
    by (simp add: TopLevelCallbackBookKeeping_getPooled_def)
  have ne: "nativeEvent ?bk0 = Some ev" by (simp add: TopLevelCallbackBookKeeping_def)
  have impl: "handleTopLevelImpl ?bk0 ?s0 = Some (bk, s1, e)"
    using build inv ne by (simp add: handleTopLevelImpl_def)
  have batch: "batchedUpdates handleTopLevelImpl ?bk0
      (st\<lparr>bookKeepingPool := butlast (bookKeepingPool st)\<rparr>)
      = Some (bk, s1\<lparr>log := log s1 @ [BatchEnd]\<rparr>, e)"
    using impl by (simp add: batchedUpdates_def)
  from invokeLoop_frame [OF inv]
  have fr: "metadataPool s1 = pool" "bookKeepingPool s1 = butlast (bookKeepingPool st)"
    by simp_all
  have nn: "None \<notin> set (ancestorMetadata bk)"
    using buildAncestors_metadata(2) [OF build] .
  have rel: "TopLevelCallbackBookKeeping_release bk (s1\<lparr>log := log s1 @ [BatchEnd]\<rparr>) =
    (s1\<lparr>log := log s1 @ [BatchEnd],
        metadataPool := pool @ replicate (length (ancestorMetadata bk)) \<lparr>isRelatedTarget = None\<rparr>,
        bookKeepingPool := butlast (bookKeepingPool st) @
          [\<lparr>topLevelType = None, nativeEvent = None, ancestors = [],
            ancestorMetadata = [], relatedAncestors = [], roots = [],
            relatedRoots = []\<rparr>]\<rparr>, None)"
    using fr by (simp add: TopLevelCallbackBookKeeping_release_def destructor_eq_all [OF nn])
  show ?thesis
    using en gp batch rel by (cases e) (simp_all add: dispatchEvent_def)
qed

subsection \<open>The listener on the document\<close>

lemma build_clickNested:
  "buildAncestors docEnv clickNested (TopLevelCallbackBookKeeping ''topClick'' clickNested) [] =
     Some (\<lparr>topLevelType = Some ''topClick'', nativeEvent = Some clickNested,
            ancestors = [Some 4, Some 2],
            ancestorMetadata = [Some \<lparr>isRelatedTarget = Some False\<rparr>,
                                Some \<lparr>isRelatedTarget = Some False\<rparr>],
            relatedAncestors = [], roots = [Some 40, Some 10], relatedRoots = []\<rparr>, [])"
  by code_simp

lemma build_overSameRoot:
  "buildAncestors docEnv overSameRoot
     (TopLevelCallbackBookKeeping ''topMouseOver'' overSameRoot) [] =
     Some (\<lparr>topLevelType = Some ''topMouseOver'', nativeEvent = Some overSameRoot,
            ancestors = [Some 2, None],
            ancestorMetadata = [Some \<lparr>isRelatedTarget = Some False\<rparr>,
                                Some \<lparr>isRelatedTarget = Some True\<rparr>],
            relatedAncestors = [Some 5], roots = [Some 10], relatedRoots = [Some 10]\<rparr>, [])"
  by code_simp

lemma build_overOtherRoot:
  "buildAncestors docEnv overOtherRoot
     (TopLevelCallbackBookKeeping ''topMouseOver'' overOtherRoot) [] =
     Some (\<lparr>topLevelType = Some ''topMouseOver'', nativeEvent = Some overOtherRoot,
            ancestors = [Some 2, None],
            ancestorMetadata = [Some \<lparr>isRelatedTarget = Some False\<rparr>,
                                Some \<lparr>isRelatedTarget = Some True\<rparr>],
            relatedAncestors = [Some 7], roots = [Some 10], relatedRoots = [Some 60]\<rparr>, [])"
  by code_simp

subsection \<open>The dispatch gate\<close>

lemma dispatchEvent_enabled_unchanged:
  assumes "dispatchEvent tlt ev st = Some (st', e)"
  shows "enabled st' = enabled st"
proof (cases "toBoolean (enabled st)")
  case False
  then show ?thesis using assms by (simp add: dispatchEvent_def)
next
  case True
  let ?bk0 = "TopLevelCallbackBookKeeping tlt ev"
  show ?thesis
  proof (cases "buildAncestors (tree (world st)) ev ?bk0 (metadataPool st)")
    case None
    then have "dispatchEvent tlt ev st = None"
      using True
      by (simp add: dispatchEvent_def TopLevelCallbackBookKeeping_getPooled_def
          batchedUpdates_def handleTopLevelImpl_def TopLevelCallbackBookKeeping_def)
    then show ?thesis using assms by simp
  next
    case (Some p)
    obtain bk pool where p: "p = (bk, pool)" by (cases p)
    let ?s0 = "st\<lparr>bookKeepingPool := butlast (bookKeepingPool st),
                  log := log st @ [BatchStart], metadataPool := pool\<rparr>"
    obtain s1 e1 where inv: "invokeLoop bk ev 0 ?s0 = (s1, e1)"
      by (cases "invokeLoop bk ev 0 ?s0")
    from invokeLoop_frame [OF inv] have "enabled s1 = enabled st" by simp
    then show ?thesis
      using dispatchEvent_run [OF True Some [unfolded p] inv] assms by auto
  qed
qed

text \<open>
  C6. While dispatch is disabled, that is while the flag is falsy as it is after
  \<open>setEnabled false\<close>, \<open>dispatchEvent\<close> returns at once: it throws nothing and
  leaves the listener as it was, so the handler is not invoked and no pooled object is
  acquired or released.
\<close>

theorem dispatchEvent_disabled:
  "\<not> toBoolean (isEnabled st) \<Longrightarrow> dispatchEvent tlt ev st = Some (st, None)"
  by (simp add: dispatchEvent_def isEnabled_def)

theorem dispatchEvent_disabled_witness:
  "\<not> toBoolean (isEnabled (setEnabled (JBool False) recordingListener)) \<and>
   map_option snd (dispatchEvent ''topClick'' clickNested
      (setEnabled (JBool False) recordingListener)) = Some None \<and>
   map_option (log \<circ> fst) (dispatchEvent ''topClick'' clickNested
      (setEnabled (JBool False) recordingListener)) = Some [] \<and>
   map_option (metadataPool \<circ> fst) (dispatchEvent ''topClick'' clickNested
      (setEnabled (JBool False) recordingListener)) = Some [] \<and>
   map_option (bookKeepingPool \<circ> fst) (dispatchEvent ''topClick'' clickNested
      (setEnabled (JBool False) recordingListener)) = Some []"
proof -
  have h: "\<not> toBoolean (isEnabled (setEnabled (JBool False) recordingListener))"
    by (simp add: isEnabled_def setEnabled_def)
  show ?thesis
    using h dispatchEvent_disabled [OF h, of "''topClick''" clickNested]
    by (simp add: setEnabled_def recordingListener_def setHandleTopLevel_def
        initialListener_def)
qed

text \<open>
  C10. Dispatch is enabled when the module is loaded; after \<open>setEnabled x\<close> the flag is
  the boolean coercion of \<open>x\<close>; and in every state the listener can reach,
  \<open>isEnabled\<close> returns a boolean.
\<close>

theorem isEnabled_boolean:
  "isEnabled (initialListener w) = JBool True \<and>
   isEnabled (setEnabled x st) = JBool (toBoolean x) \<and>
   (reachable st' \<longrightarrow> (\<exists>b. isEnabled st' = JBool b))"
proof -
  have "reachable st' \<Longrightarrow> \<exists>b. enabled st' = JBool b"
  proof (induction rule: reachable.induct)
    case (reach_dispatchEvent st tlt ev st' e)
    then show ?case using dispatchEvent_enabled_unchanged by metis
  qed (auto simp: initialListener_def setEnabled_def setHandleTopLevel_def)
  then show ?thesis
    by (simp add: isEnabled_def initialListener_def setEnabled_def)
qed

theorem isEnabled_boolean_witness:
  "reachable (setEnabled (JString []) recordingListener) \<and>
   isEnabled (setEnabled (JString []) recordingListener) = JBool False \<and>
   isEnabled (setEnabled (JNumber (JFinite True 0)) recordingListener) = JBool False \<and>
   isEnabled (setEnabled (JObject 0) recordingListener) = JBool True"
proof -
  have r: "reachable (setEnabled (JString []) recordingListener)"
    unfolding recordingListener_def
    by (intro reach_setEnabled reach_setHandleTopLevel reach_initial)
  show ?thesis
    using r
      isEnabled_boolean [of "world recordingListener" "JString []" recordingListener
        "setEnabled (JString []) recordingListener"]
      isEnabled_boolean [of "world recordingListener" "JNumber (JFinite True 0)"
        recordingListener recordingListener]
      isEnabled_boolean [of "world recordingListener" "JObject 0" recordingListener
        recordingListener]
    by simp
qed

subsection \<open>Trapping\<close>

text \<open>
  C9. With an absent element, \<open>trapBubbledEvent\<close> and \<open>trapCapturedEvent\<close> return
  \<^verbatim>\<open>null\<close> and attach nothing. With an element, each attaches one listener for the
  event name on the element, in the bubble and in the capture phase respectively, whose
  callback passes the event to \<open>dispatchEvent\<close> with the given top-level type, and
  returns a handle; removing through the handle leaves the listeners that were there
  before.
\<close>

theorem trap_registers_dispatch:
  "trapBubbledEvent tlt name None regs = (None, regs) \<and>
   trapCapturedEvent tlt name None regs = (None, regs) \<and>
   trapBubbledEvent tlt name (Some el) regs =
     (Some (Handle \<lparr>regElement = el, regEventName = name, regCapture = False,
                    regCallback = DispatchEventBound tlt\<rparr>),
      regs @ [\<lparr>regElement = el, regEventName = name, regCapture = False,
               regCallback = DispatchEventBound tlt\<rparr>]) \<and>
   trapCapturedEvent tlt name (Some el) regs =
     (Some (Handle \<lparr>regElement = el, regEventName = name, regCapture = True,
                    regCallback = DispatchEventBound tlt\<rparr>),
      regs @ [\<lparr>regElement = el, regEventName = name, regCapture = True,
               regCallback = DispatchEventBound tlt\<rparr>]) \<and>
   callCallback (DispatchEventBound tlt) ev st = dispatchEvent tlt ev st \<and>
   mset (remove (the (fst (trapBubbledEvent tlt name (Some el) regs)))
           (snd (trapBubbledEvent tlt name (Some el) regs))) = mset regs \<and>
   mset (remove (the (fst (trapCapturedEvent tlt name (Some el) regs)))
           (snd (trapCapturedEvent tlt name (Some el) regs))) = mset regs"
  by (simp add: trapBubbledEvent_def trapCapturedEvent_def EventListener_listen_def
      EventListener_capture_def Let_def)

theorem trap_registers_dispatch_witness:
  "trapBubbledEvent ''topClick'' ''click'' (None :: nat option) [] = (None, []) \<and>
   trapCapturedEvent ''topFocus'' ''focus'' (Some (100 :: nat)) [] =
     (Some (Handle \<lparr>regElement = 100, regEventName = ''focus'', regCapture = True,
                    regCallback = DispatchEventBound ''topFocus''\<rparr>),
      [\<lparr>regElement = 100, regEventName = ''focus'', regCapture = True,
        regCallback = DispatchEventBound ''topFocus''\<rparr>]) \<and>
   map_option (user \<circ> world \<circ> fst)
     (callCallback (DispatchEventBound ''topClick'') clickNested recordingListener) =
   map_option (user \<circ> world \<circ> fst) (dispatchEvent ''topClick'' clickNested recordingListener)"
  using trap_registers_dispatch [of "''topClick''" "''click''" "[] :: nat registration list"
      100 clickNested recordingListener]
    trap_registers_dispatch [of "''topFocus''" "''focus''" "[] :: nat registration list"
      100 clickNested recordingListener]
  by simp

subsection \<open>Building the ancestor list\<close>

text \<open>
  C7. When the first part of \<open>handleTopLevelImpl\<close> has run on the record of a dispatch,
  \<open>ancestors\<close> and \<open>ancestorMetadata\<close> have the same length; they have it after the
  metadata of the primary chain is allocated, and each step of the reconciliation loop
  keeps it.
\<close>

theorem ancestors_metadata_same_length:
  assumes "buildAncestors env ev (TopLevelCallbackBookKeeping tlt ev) pool = Some (bk, pool')"
  shows "length (ancestors bk) = length (ancestorMetadata bk) \<and>
    (\<forall>as rs. length (ancestors (fst (metadataLoop
        (TopLevelCallbackBookKeeping tlt ev\<lparr>ancestors := as, roots := rs\<rparr>) pool 0))) =
      length (ancestorMetadata (fst (metadataLoop
        (TopLevelCallbackBookKeeping tlt ev\<lparr>ancestors := as, roots := rs\<rparr>) pool 0)))) \<and>
    (\<forall>b p i. length (ancestors b) = length (ancestorMetadata b) \<longrightarrow>
       length (ancestors (fst (reconcileStep b p i))) =
       length (ancestorMetadata (fst (reconcileStep b p i))))"
proof (intro conjI allI impI)
  show "length (ancestors bk) = length (ancestorMetadata bk)"
    using buildAncestors_metadata(1) [OF assms] .
next
  fix as rs
  let ?b = "TopLevelCallbackBookKeeping tlt ev\<lparr>ancestors := as, roots := rs\<rparr>"
  have "length (ancestorMetadata ?b) = 0" "0 \<le> length (ancestors ?b)"
    by (simp_all add: TopLevelCallbackBookKeeping_def)
  from metadataLoop_eq [OF this, of pool]
  show "length (ancestors (fst (metadataLoop ?b pool 0))) =
      length (ancestorMetadata (fst (metadataLoop ?b pool 0)))"
    by (simp add: TopLevelCallbackBookKeeping_def)
next
  fix b :: bookKeeping and p i
  assume len: "length (ancestors b) = length (ancestorMetadata b)"
  obtain b' p' where st: "reconcileStep b p i = (b', p')" by (cases "reconcileStep b p i")
  from reconcileStep_inv [OF st len] len
  show "length (ancestors (fst (reconcileStep b p i))) =
      length (ancestorMetadata (fst (reconcileStep b p i)))"
    using st by auto
qed

theorem ancestors_metadata_same_length_witness:
  "map_option (length \<circ> ancestors \<circ> fst) (buildAncestors docEnv overOtherRoot
      (TopLevelCallbackBookKeeping ''topMouseOver'' overOtherRoot) []) = Some 2 \<and>
   map_option (length \<circ> ancestorMetadata \<circ> fst) (buildAncestors docEnv overOtherRoot
      (TopLevelCallbackBookKeeping ''topMouseOver'' overOtherRoot) []) = Some 2"
  using ancestors_metadata_same_length [OF build_overOtherRoot] build_overOtherRoot
  by simp

text \<open>
  C4, as amended. For two nested trees, the collector started at a leaf of the inner tree
  returns exactly two ancestors, the leaf itself and then the instance of the outer tree
  that owns the inner container, and exactly two roots, the inner root node and then the
  outer one.
\<close>

theorem collect_nested_two_ancestors:
  assumes "hostRoot env leaf = Some innerTop"
    and "getClosestInstanceFromNode env (parentNode env (getNodeFromInstance env innerTop))
           = Some owner"
    and "hostRoot env owner = Some outerTop"
    and "getClosestInstanceFromNode env (parentNode env (getNodeFromInstance env outerTop))
           = None"
  shows "collectAncestors env [] [] (Some leaf) =
    Some ([Some leaf, Some owner],
          [Some (getNodeFromInstance env innerTop), Some (getNodeFromInstance env outerTop)])"
  using assms by (simp add: collectAncestors_def collectLoop_next collectLoop_stop)

lemma hostRoot_doc:
  "hostRoot docEnv 4 = Some 3" "hostRoot docEnv 2 = Some 1" "hostRoot docEnv 7 = Some 6"
  by code_simp+

theorem collect_nested_two_ancestors_witness:
  "collectAncestors docEnv [] [] (Some 4) = Some ([Some 4, Some 2], [Some 40, Some 10])"
proof -
  have a: "getClosestInstanceFromNode docEnv (parentNode docEnv (getNodeFromInstance docEnv 3))
      = Some 2" by code_simp
  have b: "getClosestInstanceFromNode docEnv (parentNode docEnv (getNodeFromInstance docEnv 1))
      = None" by code_simp
  show ?thesis
    using collect_nested_two_ancestors [OF hostRoot_doc(1) a hostRoot_doc(2) b]
    by (simp add: docEnv_def docNode_def)
qed

text \<open>
  On the document, the leaf 4 of the nested tree B has the outermost instance 3 above it;
  the collector's first ancestor is the leaf, not that outermost instance.
\<close>

theorem collect_nested_first_is_leaf:
  "hostRoot docEnv 4 = Some 3 \<and>
   collectAncestors docEnv [] [] (Some 4) = Some ([Some 4, Some 2], [Some 40, Some 10]) \<and>
   collectAncestors docEnv [] [] (Some 4) \<noteq> Some ([Some 3, Some 2], [Some 40, Some 10])"
  by code_simp

text \<open>
  C3. The claim is that a related target in a different root, not nested, adds exactly one
  entry to \<open>ancestors\<close>, the related target's outermost instance, flagged
  \<open>isRelatedTarget = true\<close>. For the pointer moving from tree A to tree C one entry is
  added and its metadata is flagged, but the entry is \<^verbatim>\<open>undefined\<close>: the one pass
  of the loop reads \<open>relatedAncestors\<close> two places past its end. It is so for the
  related node 61, whose instance 7 has the outermost instance 6 above it, and for the
  related node 60, whose instance 6 is itself outermost.
\<close>

theorem related_other_root_appends_undefined:
  "getClosestInstanceFromNode docEnv (relatedTarget overOtherRoot) = Some 7 \<and>
   hostRoot docEnv 7 = Some 6 \<and>
   map_option (roots \<circ> fst) (buildAncestors docEnv overOtherRoot
      (TopLevelCallbackBookKeeping ''topMouseOver'' overOtherRoot) []) = Some [Some 10] \<and>
   map_option (relatedRoots \<circ> fst) (buildAncestors docEnv overOtherRoot
      (TopLevelCallbackBookKeeping ''topMouseOver'' overOtherRoot) []) = Some [Some 60] \<and>
   map_option (ancestors \<circ> fst) (buildAncestors docEnv overOtherRoot
      (TopLevelCallbackBookKeeping ''topMouseOver'' overOtherRoot) []) = Some [Some 2, None] \<and>
   map_option (ancestorMetadata \<circ> fst) (buildAncestors docEnv overOtherRoot
      (TopLevelCallbackBookKeeping ''topMouseOver'' overOtherRoot) []) =
     Some [Some \<lparr>isRelatedTarget = Some False\<rparr>, Some \<lparr>isRelatedTarget = Some True\<rparr>] \<and>
   getClosestInstanceFromNode docEnv (relatedTarget overOtherRootTop) = Some 6 \<and>
   hostRoot docEnv 6 = Some 6 \<and>
   map_option (ancestors \<circ> fst) (buildAncestors docEnv overOtherRootTop
      (TopLevelCallbackBookKeeping ''topMouseOver'' overOtherRootTop) []) = Some [Some 2, None]"
  by code_simp

subsection \<open>Running the handlers\<close>

text \<open>
  C5. When the handler loop of a dispatch throws, \<open>dispatchEvent\<close> returns with that
  exception, after the record's destructor has released every metadata object the record
  holds and the record itself has gone back to its pool: the metadata pool is what the
  dispatch left of it followed by one reset object per entry of \<open>ancestorMetadata\<close>,
  and the record pool ends with the reset record.
\<close>

theorem dispatchEvent_throw_releases:
  assumes "toBoolean (enabled st)"
    and "buildAncestors (tree (world st)) ev (TopLevelCallbackBookKeeping tlt ev)
           (metadataPool st) = Some (bk, pool)"
    and "snd (invokeLoop bk ev 0 st) = Some e"
  shows "\<exists>st'. dispatchEvent tlt ev st = Some (st', Some e) \<and>
    metadataPool st' =
      take (length (metadataPool st) - length (ancestorMetadata bk)) (metadataPool st) @
      replicate (length (ancestorMetadata bk)) \<lparr>isRelatedTarget = None\<rparr> \<and>
    bookKeepingPool st' = butlast (bookKeepingPool st) @
      [\<lparr>topLevelType = None, nativeEvent = None, ancestors = [], ancestorMetadata = [],
        relatedAncestors = [], roots = [], relatedRoots = []\<rparr>]"
proof -
  let ?s0 = "st\<lparr>bookKeepingPool := butlast (bookKeepingPool st),
                log := log st @ [BatchStart], metadataPool := pool\<rparr>"
  obtain s1 e1 where inv: "invokeLoop bk ev 0 ?s0 = (s1, e1)"
    by (cases "invokeLoop bk ev 0 ?s0")
  have "snd (invokeLoop bk ev 0 ?s0) = snd (invokeLoop bk ev 0 st)"
    by (rule invokeLoop_indep) simp_all
  then have e1: "e1 = Some e" using inv assms(3) by simp
  have pool: "pool = take (length (metadataPool st) - length (ancestorMetadata bk))
      (metadataPool st)"
    using buildAncestors_metadata(3) [OF assms(2)] .
  show ?thesis
    using dispatchEvent_run [OF assms(1,2) inv] e1 pool by simp
qed

theorem dispatchEvent_throw_releases_witness:
  "map_option snd (dispatchEvent ''topClick'' clickNested throwingListener) =
     Some (Some (Thrown (JString ''boom''))) \<and>
   map_option (metadataPool \<circ> fst) (dispatchEvent ''topClick'' clickNested throwingListener) =
     Some [\<lparr>isRelatedTarget = None\<rparr>, \<lparr>isRelatedTarget = None\<rparr>] \<and>
   map_option (bookKeepingPool \<circ> fst) (dispatchEvent ''topClick'' clickNested throwingListener) =
     Some [\<lparr>topLevelType = None, nativeEvent = None, ancestors = [], ancestorMetadata = [],
            relatedAncestors = [], roots = [], relatedRoots = []\<rparr>]"
proof -
  have 1: "toBoolean (enabled throwingListener)" by code_simp
  have t: "tree (world throwingListener) = docEnv" "metadataPool throwingListener = []"
    "bookKeepingPool throwingListener = []"
    by (simp_all add: throwingListener_def setHandleTopLevel_def initialListener_def)
  have 2: "buildAncestors (tree (world throwingListener)) clickNested
      (TopLevelCallbackBookKeeping ''topClick'' clickNested) (metadataPool throwingListener) =
     Some (\<lparr>topLevelType = Some ''topClick'', nativeEvent = Some clickNested,
            ancestors = [Some 4, Some 2],
            ancestorMetadata = [Some \<lparr>isRelatedTarget = Some False\<rparr>,
                                Some \<lparr>isRelatedTarget = Some False\<rparr>],
            relatedAncestors = [], roots = [Some 40, Some 10], relatedRoots = []\<rparr>, [])"
    using build_clickNested by (simp add: t)
  have 3: "snd (invokeLoop \<lparr>topLevelType = Some ''topClick'', nativeEvent = Some clickNested,
            ancestors = [Some 4, Some 2],
            ancestorMetadata = [Some \<lparr>isRelatedTarget = Some False\<rparr>,
                                Some \<lparr>isRelatedTarget = Some False\<rparr>],
            relatedAncestors = [], roots = [Some 40, Some 10], relatedRoots = []\<rparr>
          clickNested 0 throwingListener) = Some (Thrown (JString ''boom''))"
    by code_simp
  from dispatchEvent_throw_releases [OF 1 2 3]
  show ?thesis by (auto simp: t)
qed

text \<open>
  C8, as amended. In a dispatch that is enabled and has a handler, the record is filled
  from the tree as it stands before any handler runs, and the outside calls of the
  dispatch are: entering the batched-update scope, then one handler call per ancestor,
  in list order and with the prescribed arguments, up to and including the first call
  that throws, then leaving the scope. The calls made, the world they leave and what the
  dispatch throws are exactly those of \<open>runCalls\<close> on the prescribed calls: when no
  call throws, every ancestor gets exactly one call and the dispatch throws nothing; when
  one throws, it is the last call, the ancestors after it get none, and the dispatch
  throws its value.
\<close>

theorem dispatchEvent_calls_in_order:
  assumes "toBoolean (enabled st)"
    and "handleTopLevel st = Some h"
    and "buildAncestors (tree (world st)) ev (TopLevelCallbackBookKeeping tlt ev)
           (metadataPool st) = Some (bk, pool)"
    and "runCalls h (specifiedCalls tlt ev bk) (world st) = (made, w', r)"
  shows "\<exists>st' k. dispatchEvent tlt ev st = Some (st', map_option Thrown r) \<and>
    log st' = log st @ [BatchStart] @ map Invoke made @ [BatchEnd] \<and>
    world st' = w' \<and>
    length (specifiedCalls tlt ev bk) = length (ancestors bk) \<and>
    k \<le> length (ancestors bk) \<and> made = take k (specifiedCalls tlt ev bk) \<and>
    (r = None \<longrightarrow> k = length (ancestors bk)) \<and> (r \<noteq> None \<longrightarrow> 0 < k)"
proof -
  let ?s0 = "st\<lparr>bookKeepingPool := butlast (bookKeepingPool st),
                log := log st @ [BatchStart], metadataPool := pool\<rparr>"
  let ?cs = "specifiedCalls tlt ev bk"
  note md = buildAncestors_metadata [OF assms(3)]
  have h0: "handleTopLevel ?s0 = Some h" using assms(2) by simp
  have rc: "runCalls h (drop 0 ?cs) (world ?s0) = (made, w', r)" using assms(4) by simp
  have inv: "invokeLoop bk ev 0 ?s0 =
      (?s0\<lparr>world := w', log := log ?s0 @ map Invoke made\<rparr>, map_option Thrown r)"
    using invokeLoop_runCalls [OF h0 md(1) md(4) md(5) rc] .
  have len: "length ?cs = length (ancestors bk)" using specifiedCalls_length [OF md(1)] .
  from runCalls_prefix [OF assms(4)] len obtain k where k:
    "k \<le> length (ancestors bk)" "made = take k ?cs"
    "r = None \<longrightarrow> k = length (ancestors bk)" "r \<noteq> None \<longrightarrow> 0 < k"
    by auto
  let ?st' = "?s0\<lparr>world := w', log := log ?s0 @ map Invoke made\<rparr>
     \<lparr>log := log (?s0\<lparr>world := w', log := log ?s0 @ map Invoke made\<rparr>) @ [BatchEnd],
      metadataPool := pool @ replicate (length (ancestorMetadata bk)) \<lparr>isRelatedTarget = None\<rparr>,
      bookKeepingPool := butlast (bookKeepingPool st) @
        [\<lparr>topLevelType = None, nativeEvent = None, ancestors = [],
          ancestorMetadata = [], relatedAncestors = [], roots = [], relatedRoots = []\<rparr>]\<rparr>"
  have d: "dispatchEvent tlt ev st = Some (?st', map_option Thrown r)"
    using dispatchEvent_run [OF assms(1,3) inv] .
  show ?thesis
    using d k len by (intro exI [of _ ?st'] exI [of _ k]) simp
qed

theorem dispatchEvent_calls_in_order_witness:
  "map_option (log \<circ> fst) (dispatchEvent ''topClick'' clickNested recordingListener) =
     Some [BatchStart,
       Invoke (HandlerCall (Some ''topClick'') (Some 4) (Some clickNested) 41
         (Some \<lparr>isRelatedTarget = Some False\<rparr>)),
       Invoke (HandlerCall (Some ''topClick'') (Some 2) (Some clickNested) 41
         (Some \<lparr>isRelatedTarget = Some False\<rparr>)),
       BatchEnd] \<and>
   map_option snd (dispatchEvent ''topClick'' clickNested recordingListener) = Some None \<and>
   map_option (log \<circ> fst) (dispatchEvent ''topClick'' clickNested throwingListener) =
     Some [BatchStart,
       Invoke (HandlerCall (Some ''topClick'') (Some 4) (Some clickNested) 41
         (Some \<lparr>isRelatedTarget = Some False\<rparr>)),
       BatchEnd] \<and>
   map_option snd (dispatchEvent ''topClick'' clickNested throwingListener) =
     Some (Some (Thrown (JString ''boom''))) \<and>
   map_option (log \<circ> fst) (dispatchEvent ''topClick'' clickNested throwAtOwnerListener) =
     Some [BatchStart,
       Invoke (HandlerCall (Some ''topClick'') (Some 4) (Some clickNested) 41
         (Some \<lparr>isRelatedTarget = Some False\<rparr>)),
       Invoke (HandlerCall (Some ''topClick'') (Some 2) (Some clickNested) 41
         (Some \<lparr>isRelatedTarget = Some False\<rparr>)),
       BatchEnd] \<and>
   map_option snd (dispatchEvent ''topClick'' clickNested throwAtOwnerListener) =
     Some (Some (Thrown (JString ''boom'')))"
proof -
  let ?bk = "\<lparr>topLevelType = Some ''topClick'', nativeEvent = Some clickNested,
            ancestors = [Some 4, Some 2],
            ancestorMetadata = [Some \<lparr>isRelatedTarget = Some False\<rparr>,
                                Some \<lparr>isRelatedTarget = Some False\<rparr>],
            relatedAncestors = [], roots = [Some 40, Some 10], relatedRoots = []\<rparr>"
  let ?c1 = "HandlerCall (Some ''topClick'') (Some 4) (Some clickNested) 41
         (Some \<lparr>isRelatedTarget = Some False\<rparr>)"
  let ?c2 = "HandlerCall (Some ''topClick'') (Some 2) (Some clickNested) 41
         (Some \<lparr>isRelatedTarget = Some False\<rparr>)"
  let ?w = "\<lparr>tree = docEnv, user = [] :: handler_call list\<rparr>"
  have cs: "specifiedCalls ''topClick'' clickNested ?bk = [?c1, ?c2]"
    by (simp add: specifiedCalls_def getEventTarget_def clickNested_def)
  have run: "map_option (log \<circ> fst) (dispatchEvent ''topClick'' clickNested
        (setHandleTopLevel h (initialListener ?w))) =
        Some ([BatchStart] @ map Invoke made @ [BatchEnd]) \<and>
      map_option snd (dispatchEvent ''topClick'' clickNested
        (setHandleTopLevel h (initialListener ?w))) = Some (map_option Thrown r)"
    if rc: "runCalls h [?c1, ?c2] ?w = (made, w', r)" for h made w' r
  proof -
    let ?L = "setHandleTopLevel h (initialListener ?w)"
    have 1: "toBoolean (enabled ?L)"
      by (simp add: setHandleTopLevel_def initialListener_def)
    have 2: "handleTopLevel ?L = Some h"
      by (simp add: setHandleTopLevel_def)
    have t: "tree (world ?L) = docEnv" "metadataPool ?L = []" "log ?L = []" "world ?L = ?w"
      by (simp_all add: setHandleTopLevel_def initialListener_def)
    have 3: "buildAncestors (tree (world ?L)) clickNested
        (TopLevelCallbackBookKeeping ''topClick'' clickNested) (metadataPool ?L) =
        Some (?bk, [])"
      using build_clickNested by (simp add: t)
    have 4: "runCalls h (specifiedCalls ''topClick'' clickNested ?bk) (world ?L) =
        (made, w', r)"
      using rc cs t(4) by simp
    from dispatchEvent_calls_in_order [OF 1 2 3 4]
    obtain st' where
      "dispatchEvent ''topClick'' clickNested ?L = Some (st', map_option Thrown r)"
      "log st' = log ?L @ [BatchStart] @ map Invoke made @ [BatchEnd]"
      by blast
    then show ?thesis using t(3) by simp
  qed
  have r1: "runCalls recordingHandler [?c1, ?c2] ?w =
      ([?c1, ?c2], \<lparr>tree = docEnv, user = [?c1, ?c2]\<rparr>, None)"
    by (simp add: recordingHandler_def)
  have r2: "runCalls throwingHandler [?c1, ?c2] ?w =
      ([?c1], \<lparr>tree = docEnv, user = [?c1]\<rparr>, Some (JString ''boom''))"
    by (simp add: throwingHandler_def)
  have r3: "runCalls throwAtOwnerHandler [?c1, ?c2] ?w =
      ([?c1, ?c2], \<lparr>tree = docEnv, user = [?c1, ?c2]\<rparr>, Some (JString ''boom''))"
    by (simp add: throwAtOwnerHandler_def)
  show ?thesis
    using run [OF r1] run [OF r2] run [OF r3]
    by (simp add: recordingListener_def throwingListener_def throwAtOwnerListener_def)
qed

text \<open>
  On the document, the click on the nested leaf has the two ancestors 4 and 2; with a
  handler that throws, the handler is called for the first and never for the second.
\<close>

theorem dispatchEvent_throw_skips_ancestors:
  "map_option (ancestors \<circ> fst) (buildAncestors docEnv clickNested
      (TopLevelCallbackBookKeeping ''topClick'' clickNested) []) = Some [Some 4, Some 2] \<and>
   map_option (log \<circ> fst) (dispatchEvent ''topClick'' clickNested throwingListener) =
     Some [BatchStart,
       Invoke (HandlerCall (Some ''topClick'') (Some 4) (Some clickNested) 41
         (Some \<lparr>isRelatedTarget = Some False\<rparr>)),
       BatchEnd]"
  by code_simp

subsection \<open>The reconciliation loop reads past the ends of its lists\<close>

text \<open>
  C1. The claim is that no entry of \<open>ancestors\<close> is \<^verbatim>\<open>undefined\<close> when the handlers
  run. For a pointer moving between two nodes of tree A, the first pass of the
  reconciliation loop reads \<open>roots\<close> and \<open>relatedAncestors\<close> two places past their
  ends, and the handler's second call receives \<^verbatim>\<open>undefined\<close> as its instance.
\<close>

theorem handler_receives_undefined_ancestor:
  "map_option (user \<circ> world \<circ> fst)
     (dispatchEvent ''topMouseOver'' overSameRoot recordingListener) =
   Some [HandlerCall (Some ''topMouseOver'') (Some 2) (Some overSameRoot) 12
           (Some \<lparr>isRelatedTarget = Some False\<rparr>),
         HandlerCall (Some ''topMouseOver'') None (Some overSameRoot) 12
           (Some \<lparr>isRelatedTarget = Some True\<rparr>)]"
  by code_simp

text \<open>
  C2. The claim is that a related target in the same single root as the target adds
  nothing to \<open>ancestors\<close>. For a pointer moving between two nodes of tree A, both chains
  have the one root 10, the primary chain is the one instance 2, and the reconciliation
  still appends an entry, which is \<^verbatim>\<open>undefined\<close>.
\<close>

theorem same_root_appends_entry:
  "collectAncestors docEnv [] []
     (getClosestInstanceFromNode docEnv (Some (getEventTarget overSameRoot))) =
     Some ([Some 2], [Some 10]) \<and>
   collectAncestors docEnv [] []
     (getClosestInstanceFromNode docEnv (relatedTarget overSameRoot)) =
     Some ([Some 5], [Some 10]) \<and>
   map_option (ancestors \<circ> fst) (buildAncestors docEnv overSameRoot
      (TopLevelCallbackBookKeeping ''topMouseOver'' overSameRoot) []) = Some [Some 2, None]"
  by code_simp

end
